theory Spec2Isabelle
  imports Complex_Main "HOL-Library.Multiset"
begin

section \<open>The reviews worker (src/cf-reviews-worker/src/index.js)\<close>

text \<open>
  The worker answers one route, \<^verbatim>\<open>/reviews\<close>: it refreshes an OAuth access token,
  pages through the upstream review listing, normalises the records and sorts them.
  The embedding follows \<^verbatim>\<open>index.js\<close> function by function. What the source leaves to
  the JavaScript runtime is a parameter of the model:
  \<^item> \<open>Number\<close>, the numeric conversion of a string, as a function \<open>string \<Rightarrow> number\<close>;
  \<^item> \<open>new Date(s).getTime()\<close>, as a function \<open>string \<Rightarrow> int option\<close> (\<open>None\<close> is the
    invalid date, whose time value is NaN);
  \<^item> the global \<open>fetch\<close>, as a function from the exchanges made so far and the
    outbound request to the response.
  Every outbound call is appended to a log of exchanges, which the functions take and
  return, so that "no request was issued" is a statement about the log.
\<close>

subsection \<open>JavaScript values\<close>

text \<open>A string that may be \<open>undefined\<close> or \<open>null\<close> is a \<open>string option\<close>; it is truthy
  when it is present and not empty.\<close>

definition truthy :: "string option \<Rightarrow> bool" where
  "truthy v = (case v of None \<Rightarrow> False | Some s \<Rightarrow> s \<noteq> [])"

text \<open>\<open>a || b\<close> on two such values, \<open>a || "literal"\<close> and \<open>a || null\<close>.\<close>

definition orElse :: "string option \<Rightarrow> string option \<Rightarrow> string option" where
  "orElse a b = (if truthy a then a else b)"

definition orDefault :: "string option \<Rightarrow> string \<Rightarrow> string" where
  "orDefault a d = (case a of None \<Rightarrow> d | Some s \<Rightarrow> if s \<noteq> [] then s else d)"

definition orNull :: "string option \<Rightarrow> string option" where
  "orNull a = (if truthy a then a else None)"

text \<open>\<open>s.includes(pat)\<close>: \<open>pat\<close> occurs somewhere in \<open>s\<close>.\<close>

fun str_includes :: "string \<Rightarrow> string \<Rightarrow> bool" where
  "str_includes [] pat = (pat = [])"
| "str_includes (c # cs) pat = (take (length pat) (c # cs) = pat \<or> str_includes cs pat)"

text \<open>A JavaScript number as \<open>Number(value)\<close> can return it. A finite double is a
  rational.\<close>

datatype number = NaN | Infinity | NegInfinity | Finite rat

definition isFinite :: "number \<Rightarrow> bool" where
  "isFinite n = (case n of Finite q \<Rightarrow> True | _ \<Rightarrow> False)"

text \<open>\<open>Math.trunc\<close> rounds towards zero.\<close>

definition trunc :: "rat \<Rightarrow> int" where
  "trunc q = (if 0 \<le> q then \<lfloor>q\<rfloor> else \<lceil>q\<rceil>)"

text \<open>\<open>String(n)\<close> of a status code.\<close>

fun decimal :: "nat \<Rightarrow> string" where
  "decimal n =
     (if n < 10 then [char_of (48 + n)]
      else decimal (n div 10) @ [char_of (48 + n mod 10)])"

declare decimal.simps [simp del]

subsection \<open>Configuration, inbound requests and responses\<close>

record env =
  ALLOWED_ORIGIN :: "string option"
  GBP_ACCOUNT_ID :: "string option"
  GBP_LOCATION_ID :: "string option"
  GOOGLE_OAUTH_CLIENT_ID :: "string option"
  GOOGLE_OAUTH_CLIENT_SECRET :: "string option"
  GOOGLE_OAUTH_REFRESH_TOKEN :: "string option"

text \<open>The inbound request after \<open>new URL(request.url)\<close>: its method, the path and the
  query parameters in order (\<open>searchParams.get\<close> returns the first value of a name,
  \<open>null\<close> when there is none).\<close>

record request =
  "method" :: string
  pathname :: string
  searchParams :: "(string \<times> string) list"

definition searchParams_get :: "request \<Rightarrow> string \<Rightarrow> string option" where
  "searchParams_get r name = map_of (searchParams r) name"

subsection \<open>Upstream records\<close>

record reviewer_info =
  displayName :: "string option"
  profilePhotoUrl :: "string option"

record raw_review =
  reviewId :: "string option"
  reviewer :: "reviewer_info option"
  starRating :: "string option"
  comment :: "string option"
  createTime :: "string option"
  updateTime :: "string option"

text \<open>The members that the worker reads from a JSON response body.\<close>

record json_body =
  access_token :: "string option"
  reviews :: "raw_review list option"
  nextPageToken :: "string option"

text \<open>An outbound call: the token refresh (a POST of the three secrets with grant type
  \<open>refresh_token\<close>) or a listing request (a GET with the page size, the page token
  when there is one, and the bearer token).\<close>

datatype outbound =
    TokenRequest string string string
  | ListRequest string string int "string option" string

text \<open>What \<open>await fetch(...)\<close> gives: the promise rejects with a message, or there
  is a response with a status, its body as text, and its body as JSON (\<open>Inl\<close> the message
  of the exception when reading the body as a JSON value with members throws).\<close>

datatype upstream_response =
    Rejected string
  | Response nat string "string + json_body"

type_synonym exchange = "outbound \<times> upstream_response"

type_synonym upstream = "exchange list \<Rightarrow> outbound \<Rightarrow> upstream_response"

definition ok :: "nat \<Rightarrow> bool" where
  "ok st = (200 \<le> st \<and> st \<le> 299)"

subsection \<open>Errors\<close>

datatype error =
    MissingSecrets
  | TokenRefreshFailed nat string
  | NoAccessToken
  | MissingIds
  | ListFailed nat string
  | Thrown string

fun message :: "error \<Rightarrow> string" where
  "message MissingSecrets = ''Missing OAuth secrets in Worker env.''"
| "message (TokenRefreshFailed st txt) =
     ''OAuth token refresh failed: '' @ decimal st @ '' '' @ txt"
| "message NoAccessToken = ''OAuth token refresh returned no access_token.''"
| "message MissingIds =
     ''Missing/placeholder accountId or locationId. Provide ?accountId=...&locationId=... or set Worker vars.''"
| "message (ListFailed st txt) = ''GBP reviews list failed: '' @ decimal st @ '' '' @ txt"
| "message (Thrown m) = m"

subsection \<open>clampInt\<close>

text \<open>\<open>Number.isFinite(n)\<close> holds for the \<open>Finite\<close> values only; the bounds are the
  integers 1 and 50 at the only call.\<close>

definition clampInt :: "(string \<Rightarrow> number) \<Rightarrow> string \<Rightarrow> int \<Rightarrow> int \<Rightarrow> int" where
  "clampInt Number value mn mx =
     (case Number value of
        Finite n \<Rightarrow> max mn (min mx (trunc n))
      | _ \<Rightarrow> mn)"

subsection \<open>starEnumToNumber\<close>

text \<open>\<open>map[starRating]\<close> reads a property of the object literal
  \<open>{ ONE: 1, TWO: 2, THREE: 3, FOUR: 4, FIVE: 5 }\<close>: an own property first, then a
  property that every object literal inherits from \<open>Object.prototype\<close> (a function, or
  the prototype itself for \<open>__proto__\<close>), else \<open>undefined\<close>. The key of an absent
  rating is the string \<open>undefined\<close>.\<close>

datatype member = Undefined | Num nat | Inherited string

text \<open>\<open>map[starRating] || 0\<close>: \<open>undefined\<close> is falsy and gives 0; the five numbers and an
  inherited member are truthy and are returned as they are.\<close>

definition star_map :: "(string \<times> nat) list" where
  "star_map = [(''ONE'', 1), (''TWO'', 2), (''THREE'', 3), (''FOUR'', 4), (''FIVE'', 5)]"

definition Object_prototype :: "string list" where
  "Object_prototype =
     [''constructor'', ''hasOwnProperty'', ''isPrototypeOf'', ''propertyIsEnumerable'',
      ''toLocaleString'', ''toString'', ''valueOf'', ''__proto__'',
      ''__defineGetter__'', ''__defineSetter__'', ''__lookupGetter__'', ''__lookupSetter__'']"

definition property_key :: "string option \<Rightarrow> string" where
  "property_key v = (case v of None \<Rightarrow> ''undefined'' | Some s \<Rightarrow> s)"

definition map_get :: "string \<Rightarrow> member" where
  "map_get key =
     (case map_of star_map key of
        Some n \<Rightarrow> Num n
      | None \<Rightarrow> if key \<in> set Object_prototype then Inherited key else Undefined)"

definition starEnumToNumber :: "string option \<Rightarrow> member" where
  "starEnumToNumber label =
     (case map_get (property_key label) of
        Undefined \<Rightarrow> Num 0
      | Num n \<Rightarrow> Num n
      | Inherited k \<Rightarrow> Inherited k)"

subsection \<open>The normalised review\<close>

text \<open>The \<open>time\<close> member is \<open>Math.floor(createTime.getTime() / 1000)\<close>: NaN for an invalid
  date, else an integer (a time value is a whole number of milliseconds of magnitude at
  most \<open>8.64e15\<close>, on which the floating-point division followed by \<open>Math.floor\<close> is the
  integer division).\<close>

datatype seconds = NotANumber | Seconds int

record review =
  reviewId :: "string option"
  author_name :: string
  profile_photo_url :: string
  rating :: member
  time :: seconds
  "text" :: string
  createTime :: "string option"
  updateTime :: "string option"

text \<open>The function that line 94 maps over the records.\<close>

definition normalizeReview :: "(string \<Rightarrow> int option) \<Rightarrow> raw_review \<Rightarrow> review" where
  "normalizeReview getTime r =
     (let rating = starEnumToNumber (starRating r);
          createTime = (if truthy (raw_review.createTime r)
                        then Some (getTime (property_key (raw_review.createTime r)))
                        else None)
      in \<lparr> reviewId = raw_review.reviewId r,
           author_name =
             orDefault (case reviewer r of None \<Rightarrow> None | Some p \<Rightarrow> displayName p) ''Anonymous'',
           profile_photo_url =
             orDefault (case reviewer r of None \<Rightarrow> None | Some p \<Rightarrow> profilePhotoUrl p) [],
           rating = rating,
           time = (case createTime of
                     None \<Rightarrow> Seconds 0
                   | Some None \<Rightarrow> NotANumber
                   | Some (Some ms) \<Rightarrow> Seconds (ms div 1000)),
           text = orDefault (comment r) [],
           createTime = orNull (raw_review.createTime r),
           updateTime = orNull (raw_review.updateTime r) \<rparr>)"

subsection \<open>The sort\<close>

text \<open>\<open>a.time || 0\<close>: NaN and 0 are falsy.\<close>

definition timeOr0 :: "seconds \<Rightarrow> int" where
  "timeOr0 t = (case t of NotANumber \<Rightarrow> 0 | Seconds n \<Rightarrow> n)"

definition compareFn :: "review \<Rightarrow> review \<Rightarrow> int" where
  "compareFn a b = timeOr0 (time b) - timeOr0 (time a)"

text \<open>\<open>Array.prototype.sort\<close> is stable: with a comparator that orders by a key, an
  element stays in front of the elements it does not compare greater than. That
  determines the result, which this insertion from the right computes.\<close>

fun place :: "('a \<Rightarrow> 'a \<Rightarrow> int) \<Rightarrow> 'a \<Rightarrow> 'a list \<Rightarrow> 'a list" where
  "place cmp a [] = [a]"
| "place cmp a (b # bs) = (if cmp a b \<le> 0 then a # b # bs else b # place cmp a bs)"

fun array_sort :: "('a \<Rightarrow> 'a \<Rightarrow> int) \<Rightarrow> 'a list \<Rightarrow> 'a list" where
  "array_sort cmp [] = []"
| "array_sort cmp (a # as) = place cmp a (array_sort cmp as)"

text \<open>\<open>xs.slice(0, n)\<close>: a negative end counts from the end of the array.\<close>

definition slice0 :: "int \<Rightarrow> 'a list \<Rightarrow> 'a list" where
  "slice0 n xs = (if 0 \<le> n then take (nat n) xs else take (length xs - nat (- n)) xs)"

subsection \<open>corsResponse\<close>

datatype body = NoBody | Text string | ReviewsJson "review list" | ErrorJson string

record response =
  status :: nat
  body :: body
  headers :: "(string \<times> string) list"

definition corsResponse :: "body \<Rightarrow> env \<Rightarrow> nat \<Rightarrow> (string \<times> string) list \<Rightarrow> response" where
  "corsResponse b env st hs =
     (let allowed = orDefault (ALLOWED_ORIGIN env) ''*''
      in \<lparr> status = st, body = b,
           headers = hs @
             [(''Access-Control-Allow-Origin'', allowed),
              (''Access-Control-Allow-Methods'', ''GET,OPTIONS''),
              (''Access-Control-Allow-Headers'', ''Content-Type,Authorization''),
              (''Access-Control-Max-Age'', ''86400'')] \<rparr>)"

subsection \<open>getAccessToken\<close>

definition getAccessToken :: "upstream \<Rightarrow> env \<Rightarrow> exchange list \<Rightarrow> (error + string) \<times> exchange list" where
  "getAccessToken net env lg =
     (let clientId = GOOGLE_OAUTH_CLIENT_ID env;
          clientSecret = GOOGLE_OAUTH_CLIENT_SECRET env;
          refreshToken = GOOGLE_OAUTH_REFRESH_TOKEN env
      in if \<not> truthy clientId \<or> \<not> truthy clientSecret \<or> \<not> truthy refreshToken
         then (Inl MissingSecrets, lg)
         else
           (let req = TokenRequest (property_key clientId) (property_key clientSecret)
                        (property_key refreshToken);
                resp = net lg req;
                lg' = lg @ [(req, resp)]
            in case resp of
                 Rejected m \<Rightarrow> (Inl (Thrown m), lg')
               | Response st txt j \<Rightarrow>
                   if \<not> ok st then (Inl (TokenRefreshFailed st txt), lg')
                   else (case j of
                           Inl m \<Rightarrow> (Inl (Thrown m), lg')
                         | Inr json \<Rightarrow>
                             if \<not> truthy (access_token json) then (Inl NoAccessToken, lg')
                             else (Inr (property_key (access_token json)), lg'))))"

subsection \<open>fetchLatestReviews\<close>

text \<open>The \<open>while\<close> loop, from the state \<open>pageToken\<close>, \<open>all\<close> and the log. A round that
  goes on has appended at least one record, so the loop ends.\<close>

function listPages ::
  "upstream \<Rightarrow> string \<Rightarrow> string \<Rightarrow> string \<Rightarrow> int \<Rightarrow> string option \<Rightarrow> raw_review list \<Rightarrow>
   exchange list \<Rightarrow> (error + raw_review list) \<times> exchange list" where
  "listPages net accountId locationId accessToken limit pageToken all lg =
     (if int (length all) < limit then
        (let req = ListRequest accountId locationId (min 50 (limit - int (length all)))
                     (if truthy pageToken then pageToken else None) accessToken;
             resp = net lg req;
             lg' = lg @ [(req, resp)]
         in case resp of
              Rejected m \<Rightarrow> (Inl (Thrown m), lg')
            | Response st txt j \<Rightarrow>
                if \<not> ok st then (Inl (ListFailed st txt), lg')
                else (case j of
                        Inl m \<Rightarrow> (Inl (Thrown m), lg')
                      | Inr json \<Rightarrow>
                          (let page = (case reviews json of None \<Rightarrow> [] | Some rs \<Rightarrow> rs);
                               all' = all @ page;
                               pageToken' = nextPageToken json
                           in if \<not> truthy pageToken' \<or> page = [] then (Inr all', lg')
                              else listPages net accountId locationId accessToken limit
                                     pageToken' all' lg')))
      else (Inr all, lg))"
  by pat_completeness auto
termination
  by (relation "measure (\<lambda>(net, a, l, t, limit, p, all, lg). nat (limit - int (length all)))")
     auto

declare listPages.simps [simp del]

definition fetchLatestReviews ::
  "(string \<Rightarrow> int option) \<Rightarrow> upstream \<Rightarrow> env \<Rightarrow> int \<Rightarrow> string option \<Rightarrow> string option \<Rightarrow>
   exchange list \<Rightarrow> (error + review list) \<times> exchange list" where
  "fetchLatestReviews getTime net env limit accountId locationId lg =
     (case getAccessToken net env lg of
        (Inl e, lg1) \<Rightarrow> (Inl e, lg1)
      | (Inr accessToken, lg1) \<Rightarrow>
          if \<not> truthy accountId \<or> \<not> truthy locationId
             \<or> str_includes (property_key accountId) ''YOUR_''
             \<or> str_includes (property_key locationId) ''YOUR_''
          then (Inl MissingIds, lg1)
          else (case listPages net (property_key accountId) (property_key locationId)
                       accessToken limit None [] lg1 of
                  (Inl e, lg2) \<Rightarrow> (Inl e, lg2)
                | (Inr all, lg2) \<Rightarrow>
                    (Inr (array_sort compareFn (map (normalizeReview getTime) (slice0 limit all))),
                     lg2)))"

subsection \<open>The fetch handler\<close>

definition json_headers :: "(string \<times> string) list" where
  "json_headers = [(''Content-Type'', ''application/json; charset=utf-8'')]"

text \<open>Lines 12 to 14: the limit and the two identifiers that the handler passes on.\<close>

definition requested_limit :: "(string \<Rightarrow> number) \<Rightarrow> request \<Rightarrow> int" where
  "requested_limit Number request =
     clampInt Number
       (case searchParams_get request ''limit'' of None \<Rightarrow> ''10'' | Some v \<Rightarrow> v) 1 50"

definition requested_accountId :: "request \<Rightarrow> env \<Rightarrow> string option" where
  "requested_accountId request env =
     orElse (searchParams_get request ''accountId'') (GBP_ACCOUNT_ID env)"

definition requested_locationId :: "request \<Rightarrow> env \<Rightarrow> string option" where
  "requested_locationId request env =
     orElse (searchParams_get request ''locationId'') (GBP_LOCATION_ID env)"

definition fetch ::
  "(string \<Rightarrow> number) \<Rightarrow> (string \<Rightarrow> int option) \<Rightarrow> upstream \<Rightarrow> request \<Rightarrow> env \<Rightarrow>
   response \<times> exchange list" where
  "fetch Number getTime net request env =
     (if method request = ''OPTIONS'' then (corsResponse NoBody env 204 [], [])
      else if pathname request = ''/reviews'' then
        (let limit = requested_limit Number request;
             accountId = requested_accountId request env;
             locationId = requested_locationId request env
         in case fetchLatestReviews getTime net env limit accountId locationId [] of
              (Inr rs, lg) \<Rightarrow> (corsResponse (ReviewsJson rs) env 200 json_headers, lg)
            | (Inl err, lg) \<Rightarrow>
                (corsResponse (ErrorJson (message err)) env 500 json_headers, lg))
      else (corsResponse (Text ''Not found'') env 404
              [(''Content-Type'', ''text/plain; charset=utf-8'')], []))"

text \<open>An identifier as the specification words the precondition: missing, empty, or
  containing the placeholder marker.\<close>

definition placeholder_or_missing :: "string option \<Rightarrow> bool" where
  "placeholder_or_missing v =
     (case v of None \<Rightarrow> True | Some s \<Rightarrow> s = [] \<or> str_includes s ''YOUR_'')"

text \<open>The token request that \<open>getAccessToken\<close> builds, and the condition under which it
  builds one.\<close>

definition token_request :: "env \<Rightarrow> outbound" where
  "token_request env =
     TokenRequest (property_key (GOOGLE_OAUTH_CLIENT_ID env))
       (property_key (GOOGLE_OAUTH_CLIENT_SECRET env))
       (property_key (GOOGLE_OAUTH_REFRESH_TOKEN env))"

definition secrets_present :: "env \<Rightarrow> bool" where
  "secrets_present env =
     (truthy (GOOGLE_OAUTH_CLIENT_ID env) \<and> truthy (GOOGLE_OAUTH_CLIENT_SECRET env) \<and>
      truthy (GOOGLE_OAUTH_REFRESH_TOKEN env))"

subsection \<open>Reading the log\<close>

definition is_list_request :: "exchange \<Rightarrow> bool" where
  "is_list_request x = (case fst x of ListRequest a l ps pt t \<Rightarrow> True | _ \<Rightarrow> False)"

text \<open>The records that one round of the loop pushes onto \<open>all\<close>: those of a listing
  response that is ok and whose body is read; none otherwise.\<close>

definition page_of :: "exchange \<Rightarrow> raw_review list" where
  "page_of x =
     (case x of
        (ListRequest a l ps pt t, Response st txt (Inr json)) \<Rightarrow>
          if ok st then (case reviews json of None \<Rightarrow> [] | Some rs \<Rightarrow> rs) else []
      | _ \<Rightarrow> [])"

definition accumulated :: "exchange list \<Rightarrow> nat" where
  "accumulated tr = length (concat (map page_of tr))"

text \<open>A round after which the loop goes on: the response is ok, its body is read, the
  page is not empty and the continuation token is truthy.\<close>

definition goes_on :: "exchange \<Rightarrow> bool" where
  "goes_on x =
     (case snd x of
        Response st txt (Inr json) \<Rightarrow> ok st \<and> page_of x \<noteq> [] \<and> truthy (nextPageToken json)
      | _ \<Rightarrow> False)"

text \<open>Normal upstream behaviour in one exchange: an ok listing response returns as many
  records as the request's page size.\<close>

definition full_page :: "exchange \<Rightarrow> bool" where
  "full_page x =
     (case x of
        (ListRequest a l ps pt t, Response st txt (Inr json)) \<Rightarrow>
          \<not> ok st \<or> int (length (page_of x)) = ps
      | _ \<Rightarrow> True)"

definition page_size :: "exchange \<Rightarrow> int" where
  "page_size x = (case fst x of ListRequest a l ps pt t \<Rightarrow> ps | _ \<Rightarrow> 0)"

subsection \<open>The ordering as the specification words it\<close>

text \<open>Section 4.3 of the specification: "After mapping, the full accumulated set is
  sorted descending by epoch (records with epoch 0 sort last) and truncated to the first
  N."\<close>

definition spec_sorted_then_truncated ::
  "(string \<Rightarrow> int option) \<Rightarrow> int \<Rightarrow> raw_review list \<Rightarrow> review list" where
  "spec_sorted_then_truncated getTime n all =
     slice0 n (array_sort compareFn (map (normalizeReview getTime) all))"

definition epoch :: "review \<Rightarrow> int" where
  "epoch r = timeOr0 (time r)"

subsection \<open>Stand-ins for the runtime, for concrete runs\<close>

text \<open>The theorems below hold for every numeric conversion, every date parser and every
  upstream. The concrete runs need particular ones. \<open>Number_of_digits\<close> agrees with
  \<open>Number\<close> on strings of decimal digits and on \<open>abc\<close>; \<open>utc_getTime\<close> agrees with
  \<open>new Date(s).getTime()\<close> on valid timestamps of the form \<open>YYYY-MM-DDTHH:MM:SSZ\<close>.
  They are used at such strings only.\<close>

fun digits_value :: "nat \<Rightarrow> string \<Rightarrow> nat option" where
  "digits_value acc [] = Some acc"
| "digits_value acc (c # cs) =
     (if 48 \<le> (of_char c :: nat) \<and> (of_char c :: nat) \<le> 57
      then digits_value (10 * acc + (of_char c - 48)) cs else None)"

definition Number_of_digits :: "string \<Rightarrow> number" where
  "Number_of_digits s = (case digits_value 0 s of None \<Rightarrow> NaN | Some n \<Rightarrow> Finite (of_nat n))"

definition days_from_civil :: "int \<Rightarrow> int \<Rightarrow> int \<Rightarrow> int" where
  "days_from_civil y m d =
     (let y' = (if m \<le> 2 then y - 1 else y);
          era = y' div 400;
          yoe = y' - era * 400;
          doy = (153 * (if 2 < m then m - 3 else m + 9) + 2) div 5 + d - 1;
          doe = yoe * 365 + yoe div 4 - yoe div 100 + doy
      in era * 146097 + doe - 719468)"

definition days_in_month :: "nat \<Rightarrow> nat \<Rightarrow> nat" where
  "days_in_month y m =
     (if m = 2 then (if y mod 4 = 0 \<and> (y mod 100 \<noteq> 0 \<or> y mod 400 = 0) then 29 else 28)
      else if m = 4 \<or> m = 6 \<or> m = 9 \<or> m = 11 then 30 else 31)"

definition utc_getTime :: "string \<Rightarrow> int option" where
  "utc_getTime s =
     (if length s = 20 \<and> s ! 4 = CHR ''-'' \<and> s ! 7 = CHR ''-'' \<and> s ! 10 = CHR ''T''
         \<and> s ! 13 = CHR '':'' \<and> s ! 16 = CHR '':'' \<and> s ! 19 = CHR ''Z''
      then
        (case (digits_value 0 (take 4 s), digits_value 0 (take 2 (drop 5 s)),
               digits_value 0 (take 2 (drop 8 s)), digits_value 0 (take 2 (drop 11 s)),
               digits_value 0 (take 2 (drop 14 s)), digits_value 0 (take 2 (drop 17 s))) of
           (Some y, Some mo, Some d, Some h, Some mi, Some se) \<Rightarrow>
             if 1 \<le> mo \<and> mo \<le> 12 \<and> 1 \<le> d \<and> d \<le> days_in_month y mo
                \<and> h \<le> 23 \<and> mi \<le> 59 \<and> se \<le> 59
             then Some ((((days_from_civil (int y) (int mo) (int d) * 24 + int h) * 60
                            + int mi) * 60 + int se) * 1000)
             else None
         | _ \<Rightarrow> None)
      else None)"

subsection \<open>The rounds of the loop, read from the log\<close>

text \<open>The request that a round of the loop builds from its state, and the shape of the
  exchanges that the loop appends when it starts with \<open>n\<close> accumulated records: every
  round but the last goes on, and each asks for \<open>min 50 (limit - n)\<close> records.\<close>

definition next_request :: "string \<Rightarrow> string \<Rightarrow> string \<Rightarrow> int \<Rightarrow> string option \<Rightarrow> raw_review list \<Rightarrow> outbound" where
  "next_request a l t limit p all =
     ListRequest a l (min 50 (limit - int (length all))) (if truthy p then p else None) t"

fun paged :: "int \<Rightarrow> nat \<Rightarrow> exchange list \<Rightarrow> bool" where
  "paged limit n [] = (\<not> int n < limit)"
| "paged limit n (x # xs) =
     (int n < limit \<and> is_list_request x \<and> page_size x = min 50 (limit - int n) \<and>
      (if goes_on x then paged limit (n + length (page_of x)) xs else xs = []))"

subsection \<open>Concrete configurations, records and upstreams\<close>

definition env_empty :: env where
  "env_empty = \<lparr> ALLOWED_ORIGIN = None, GBP_ACCOUNT_ID = None, GBP_LOCATION_ID = None,
     GOOGLE_OAUTH_CLIENT_ID = None, GOOGLE_OAUTH_CLIENT_SECRET = None,
     GOOGLE_OAUTH_REFRESH_TOKEN = None \<rparr>"

definition env_secrets :: env where
  "env_secrets = env_empty \<lparr> GOOGLE_OAUTH_CLIENT_ID := Some ''id'',
     GOOGLE_OAUTH_CLIENT_SECRET := Some ''secret'', GOOGLE_OAUTH_REFRESH_TOKEN := Some ''refresh'' \<rparr>"

definition env_defaults :: env where
  "env_defaults = env_secrets \<lparr> GBP_ACCOUNT_ID := Some ''111'', GBP_LOCATION_ID := Some ''222'' \<rparr>"

definition raw :: "string \<Rightarrow> string option \<Rightarrow> raw_review" where
  "raw i t = \<lparr> raw_review.reviewId = Some i, reviewer = None, starRating = Some ''FIVE'',
     comment = None, raw_review.createTime = t, raw_review.updateTime = None \<rparr>"

definition token_body :: "string option \<Rightarrow> json_body" where
  "token_body t = \<lparr> access_token = t, reviews = None, nextPageToken = None \<rparr>"

definition page_body :: "raw_review list \<Rightarrow> string option \<Rightarrow> json_body" where
  "page_body rs next = \<lparr> access_token = None, reviews = Some rs, nextPageToken = next \<rparr>"

definition upstream_page :: "raw_review list \<Rightarrow> string option \<Rightarrow> upstream" where
  "upstream_page rs next lg req =
     (case req of
        TokenRequest c s r \<Rightarrow> Response 200 [] (Inr (token_body (Some ''token'')))
      | ListRequest a l ps pt t \<Rightarrow> Response 200 [] (Inr (page_body rs next)))"

definition upstream_no_token :: upstream where
  "upstream_no_token lg req = Response 200 [] (Inr (token_body None))"

definition get_reviews :: request where
  "get_reviews = \<lparr> method = ''GET'', pathname = ''/reviews'', searchParams = [] \<rparr>"

text \<open>The result list of a run, empty when the run failed.\<close>

definition returned :: "(error + review list) \<times> exchange list \<Rightarrow> review list" where
  "returned p = (case fst p of Inl e \<Rightarrow> [] | Inr rs \<Rightarrow> rs)"

text \<open>One page of five records whose creation times are not in order, and the run of
  \<open>fetchLatestReviews\<close> against an upstream that answers every listing request with that
  page, whatever page size was asked for.\<close>

definition five_reviews :: "raw_review list" where
  "five_reviews =
     [raw ''a'' (Some ''2024-03-01T00:00:00Z''), raw ''b'' (Some ''2024-03-05T00:00:00Z''),
      raw ''c'' (Some ''2024-03-02T00:00:00Z''), raw ''d'' (Some ''2024-03-04T00:00:00Z''),
      raw ''e'' (Some ''2024-03-03T00:00:00Z'')]"

definition run_five :: "int \<Rightarrow> (error + review list) \<times> exchange list" where
  "run_five limit =
     fetchLatestReviews utc_getTime (upstream_page five_reviews None) env_secrets limit
       (Some ''111'') (Some ''222'') []"

text \<open>The same upstream with any one page; a record with no creation time, one created
  a second before 1970 and one created in 2024; and a run in which neither identifier is
  given.\<close>

definition run_page :: "raw_review list \<Rightarrow> int \<Rightarrow> (error + review list) \<times> exchange list" where
  "run_page page limit =
     fetchLatestReviews utc_getTime (upstream_page page None) env_secrets limit
       (Some ''111'') (Some ''222'') []"

definition undated :: raw_review where
  "undated = raw ''z'' None"

definition before_1970 :: raw_review where
  "before_1970 = raw ''old'' (Some ''1969-12-31T23:59:59Z'')"

definition dated :: raw_review where
  "dated = raw ''a'' (Some ''2024-03-01T00:00:00Z'')"

definition run_no_ids :: "(error + review list) \<times> exchange list" where
  "run_no_ids =
     fetchLatestReviews utc_getTime (upstream_page five_reviews None) env_secrets 10 None None []"

text \<open>Inbound requests, and the handler run on one of them with the stand-ins and the
  one-page upstream.\<close>

definition options_other :: request where
  "options_other = \<lparr> method = ''OPTIONS'', pathname = ''/other'', searchParams = [] \<rparr>"

definition get_other :: request where
  "get_other = \<lparr> method = ''GET'', pathname = ''/other'', searchParams = [] \<rparr>"

definition post_reviews :: request where
  "post_reviews = get_reviews \<lparr> method := ''POST'' \<rparr>"

definition get_reviews_limit_abc :: request where
  "get_reviews_limit_abc = get_reviews \<lparr> searchParams := [(''limit'', ''abc'')] \<rparr>"

definition get_reviews_empty_ids :: request where
  "get_reviews_empty_ids =
     get_reviews \<lparr> searchParams := [(''accountId'', ''''), (''locationId'', '''')] \<rparr>"

definition handle :: "request \<Rightarrow> env \<Rightarrow> response \<times> exchange list" where
  "handle request env =
     fetch Number_of_digits utc_getTime (upstream_page five_reviews None) request env"

text \<open>An upstream that behaves normally (every page holds as many records as were asked
  for, and there are always more), the loop run against it for 120 records, the loop run
  against an upstream whose pages are empty but carry a continuation token, and the
  pipeline run against an upstream whose pages hold two records whatever was asked.\<close>

definition upstream_full :: upstream where
  "upstream_full lg req =
     (case req of
        TokenRequest c s r \<Rightarrow> Response 200 [] (Inr (token_body (Some ''token'')))
      | ListRequest a l ps pt t \<Rightarrow>
          Response 200 [] (Inr (page_body (replicate (nat ps) dated) (Some ''next''))))"

definition run_full :: "(error + raw_review list) \<times> exchange list" where
  "run_full = listPages upstream_full ''111'' ''222'' ''token'' 120 None [] []"

definition run_empty_page :: "(error + raw_review list) \<times> exchange list" where
  "run_empty_page =
     listPages (upstream_page [] (Some ''more'')) ''111'' ''222'' ''token'' 10 None [] []"

definition run_pairs :: "(error + review list) \<times> exchange list" where
  "run_pairs =
     fetchLatestReviews utc_getTime (upstream_page [dated, undated] (Some ''next'')) env_secrets
       3 (Some ''111'') (Some ''222'') []"

section \<open>Properties\<close>

subsection \<open>starEnumToNumber\<close>

lemma map_get_cases:
  "map_get key =
     (if key = ''ONE'' then Num 1 else if key = ''TWO'' then Num 2
      else if key = ''THREE'' then Num 3 else if key = ''FOUR'' then Num 4
      else if key = ''FIVE'' then Num 5
      else if key \<in> set Object_prototype then Inherited key else Undefined)"
  by (simp add: map_get_def star_map_def)

lemma starEnumToNumber_labels:
  "starEnumToNumber (Some ''ONE'') = Num 1 \<and> starEnumToNumber (Some ''TWO'') = Num 2 \<and>
   starEnumToNumber (Some ''THREE'') = Num 3 \<and> starEnumToNumber (Some ''FOUR'') = Num 4 \<and>
   starEnumToNumber (Some ''FIVE'') = Num 5 \<and> starEnumToNumber None = Num 0"
  by (simp add: starEnumToNumber_def map_get_cases property_key_def Object_prototype_def)

lemma starEnumToNumber_other:
  assumes "s \<notin> {''ONE'', ''TWO'', ''THREE'', ''FOUR'', ''FIVE''}" and "s \<notin> set Object_prototype"
  shows "starEnumToNumber (Some s) = Num 0"
  using assms by (simp add: starEnumToNumber_def map_get_cases property_key_def)

subsection \<open>The handler's three branches\<close>

lemma fetch_OPTIONS:
  "method request = ''OPTIONS'' \<Longrightarrow>
   fetch Number getTime net request env = (corsResponse NoBody env 204 [], [])"
  by (simp add: fetch_def)

lemma fetch_reviews_status:
  assumes "method request \<noteq> ''OPTIONS''" and "pathname request = ''/reviews''"
  shows "status (fst (fetch Number getTime net request env)) = 200
       \<or> status (fst (fetch Number getTime net request env)) = 500"
  using assms
  by (simp add: fetch_def Let_def corsResponse_def split: prod.splits sum.splits)

text \<open>The limit that the handler passes on is always one of 1 to 50.\<close>

lemma requested_limit_range:
  "1 \<le> requested_limit Number request \<and> requested_limit Number request \<le> 50"
  by (simp add: requested_limit_def clampInt_def split: number.splits)

subsection \<open>One round of the loop\<close>

lemma listPages_stop:
  "\<not> int (length all) < limit \<Longrightarrow> listPages net a l t limit p all lg = (Inr all, lg)"
  by (simp add: listPages.simps)

lemma listPages_last:
  assumes "int (length all) < limit"
    and "x = (next_request a l t limit p all, net lg (next_request a l t limit p all))"
    and "\<not> goes_on x"
  shows "snd (listPages net a l t limit p all lg) = lg @ [x]"
    and "fst (listPages net a l t limit p all lg) = Inr r \<Longrightarrow> r = all @ page_of x"
  using assms
  by (auto simp: listPages.simps [of net a l t limit p all lg] next_request_def Let_def
      goes_on_def page_of_def split: upstream_response.splits sum.splits option.splits if_splits)

lemma listPages_last_error:
  assumes "int (length all) < limit"
    and "x = (next_request a l t limit p all, net lg (next_request a l t limit p all))"
    and "\<not> goes_on x"
  shows "fst (listPages net a l t limit p all lg) \<noteq> Inl MissingIds"
  using assms
  by (auto simp: listPages.simps [of net a l t limit p all lg] next_request_def Let_def
      goes_on_def page_of_def split: upstream_response.splits sum.splits option.splits if_splits)

lemma listPages_more:
  assumes "int (length all) < limit"
    and "x = (next_request a l t limit p all, net lg (next_request a l t limit p all))"
    and "goes_on x"
  shows "\<exists>p'. listPages net a l t limit p all lg =
           listPages net a l t limit p' (all @ page_of x) (lg @ [x])"
  using assms
  by (auto simp: listPages.simps [of net a l t limit p all lg] next_request_def Let_def
      goes_on_def page_of_def split: upstream_response.splits sum.splits option.splits if_splits)

lemma next_request_shape:
  "is_list_request (next_request a l t limit p all, resp)"
  "page_size (next_request a l t limit p all, resp) = min 50 (limit - int (length all))"
  by (simp_all add: next_request_def is_list_request_def page_size_def)

subsection \<open>The exchanges that the loop appends\<close>

lemma listPages_paged:
  "\<exists>tr. snd (listPages net a l t limit p all lg) = lg @ tr \<and> paged limit (length all) tr \<and>
        (\<forall>r. fst (listPages net a l t limit p all lg) = Inr r \<longrightarrow>
               r = all @ concat (map page_of tr))"
proof (induction "nat (limit - int (length all))" arbitrary: p all lg rule: less_induct)
  case less
  show ?case
  proof (cases "int (length all) < limit")
    case False
    then show ?thesis by (simp add: listPages_stop)
  next
    case True
    define x where "x = (next_request a l t limit p all, net lg (next_request a l t limit p all))"
    have shape: "is_list_request x" "page_size x = min 50 (limit - int (length all))"
      by (simp_all add: x_def next_request_shape)
    show ?thesis
    proof (cases "goes_on x")
      case False
      have "snd (listPages net a l t limit p all lg) = lg @ [x]"
        by (rule listPages_last(1) [where net = net and lg = lg, OF True x_def False])
      moreover have "paged limit (length all) [x]"
        using True False shape by simp
      moreover have "\<forall>r. fst (listPages net a l t limit p all lg) = Inr r \<longrightarrow>
               r = all @ concat (map page_of [x])"
        using listPages_last(2) [where net = net and lg = lg, OF True x_def False] by simp
      ultimately show ?thesis by blast
    next
      case gx: True
      then have ne: "page_of x \<noteq> []" by (auto simp: goes_on_def split: upstream_response.splits sum.splits)
      obtain p' where step: "listPages net a l t limit p all lg =
           listPages net a l t limit p' (all @ page_of x) (lg @ [x])"
        using listPages_more [where net = net and lg = lg, OF True x_def gx] by blast
      have "nat (limit - int (length (all @ page_of x))) < nat (limit - int (length all))"
        using True ne by (cases "page_of x") auto
      from less [OF this, of p' "lg @ [x]"]
      obtain tr where tr: "snd (listPages net a l t limit p' (all @ page_of x) (lg @ [x])) = (lg @ [x]) @ tr"
        "paged limit (length (all @ page_of x)) tr"
        "\<forall>r. fst (listPages net a l t limit p' (all @ page_of x) (lg @ [x])) = Inr r \<longrightarrow>
               r = (all @ page_of x) @ concat (map page_of tr)"
        by blast
      have "snd (listPages net a l t limit p all lg) = lg @ (x # tr)"
        using step tr(1) by simp
      moreover have "paged limit (length all) (x # tr)"
        using True gx shape tr(2) by simp
      moreover have "\<forall>r. fst (listPages net a l t limit p all lg) = Inr r \<longrightarrow>
               r = all @ concat (map page_of (x # tr))"
        using step tr(3) by simp
      ultimately show ?thesis by blast
    qed
  qed
qed

lemma listPages_not_MissingIds:
  "fst (listPages net a l t limit p all lg) \<noteq> Inl MissingIds"
proof (induction "nat (limit - int (length all))" arbitrary: p all lg rule: less_induct)
  case less
  show ?case
  proof (cases "int (length all) < limit")
    case False
    then show ?thesis by (simp add: listPages_stop)
  next
    case True
    define x where "x = (next_request a l t limit p all, net lg (next_request a l t limit p all))"
    show ?thesis
    proof (cases "goes_on x")
      case False
      show ?thesis
        by (rule listPages_last_error [where net = net and lg = lg, OF True x_def False])
    next
      case gx: True
      then have ne: "page_of x \<noteq> []"
        by (auto simp: goes_on_def split: upstream_response.splits sum.splits)
      obtain p' where step: "listPages net a l t limit p all lg =
           listPages net a l t limit p' (all @ page_of x) (lg @ [x])"
        using listPages_more [where net = net and lg = lg, OF True x_def gx] by blast
      have "nat (limit - int (length (all @ page_of x))) < nat (limit - int (length all))"
        using True ne by (cases "page_of x") auto
      from less [OF this, of p' "lg @ [x]"] step show ?thesis by simp
    qed
  qed
qed

lemma paged_empty: "paged limit n tr \<Longrightarrow> tr = [] \<longleftrightarrow> \<not> int n < limit"
  by (cases tr) auto

lemma paged_length:
  "paged limit n tr \<Longrightarrow> int (length tr) \<le> max 0 (limit - int n)"
proof (induction tr arbitrary: n)
  case Nil
  then show ?case by simp
next
  case (Cons x xs)
  show ?case
  proof (cases "goes_on x")
    case True
    then have "page_of x \<noteq> []" by (auto simp: goes_on_def split: upstream_response.splits sum.splits)
    then have "1 \<le> length (page_of x)" by (cases "page_of x") auto
    moreover have "int (length xs) \<le> max 0 (limit - int (n + length (page_of x)))"
      using Cons.IH [of "n + length (page_of x)"] Cons.prems True by simp
    ultimately show ?thesis using Cons.prems by auto
  next
    case False
    then show ?thesis using Cons.prems by auto
  qed
qed

lemma paged_goes_on:
  "paged limit n tr \<Longrightarrow> Suc i < length tr \<Longrightarrow>
     goes_on (tr ! i) \<and> int (n + accumulated (take (Suc i) tr)) < limit"
proof (induction tr arbitrary: n i)
  case Nil
  then show ?case by simp
next
  case (Cons x xs)
  from Cons.prems have ne: "xs \<noteq> []" by auto
  with Cons.prems have gx: "goes_on x" and rest: "paged limit (n + length (page_of x)) xs"
    by (auto split: if_splits)
  show ?case
  proof (cases i)
    case 0
    from rest ne have "int (n + length (page_of x)) < limit" by (cases xs) auto
    then show ?thesis using 0 gx by (simp add: accumulated_def)
  next
    case (Suc j)
    then have "Suc j < length xs" using Cons.prems by simp
    from Cons.IH [OF rest this] show ?thesis using Suc by (simp add: accumulated_def add.assoc)
  qed
qed

lemma paged_last:
  "paged limit n tr \<Longrightarrow> tr \<noteq> [] \<Longrightarrow>
     \<not> goes_on (last tr) \<or> limit \<le> int (n + accumulated tr)"
proof (induction tr arbitrary: n)
  case Nil
  then show ?case by simp
next
  case (Cons x xs)
  show ?case
  proof (cases "goes_on x")
    case False
    then show ?thesis using Cons.prems by auto
  next
    case True
    then have rest: "paged limit (n + length (page_of x)) xs" using Cons.prems by simp
    show ?thesis
    proof (cases "xs = []")
      case True
      then show ?thesis using rest by (simp add: accumulated_def)
    next
      case False
      from Cons.IH [OF rest False] show ?thesis using False
        by (simp add: accumulated_def add.assoc)
    qed
  qed
qed

lemma paged_page_size:
  "paged limit n tr \<Longrightarrow> i < length tr \<Longrightarrow>
     page_size (tr ! i) = min 50 (limit - int (n + accumulated (take i tr)))"
proof (induction tr arbitrary: n i)
  case Nil
  then show ?case by simp
next
  case (Cons x xs)
  show ?case
  proof (cases i)
    case 0
    then show ?thesis using Cons.prems by (simp add: accumulated_def)
  next
    case (Suc j)
    then have j: "j < length xs" using Cons.prems by simp
    then have "xs \<noteq> []" by auto
    with Cons.prems have rest: "paged limit (n + length (page_of x)) xs"
      by (auto split: if_splits)
    from Cons.IH [OF rest j] show ?thesis using Suc by (simp add: accumulated_def add.assoc)
  qed
qed

lemma goes_on_full_page:
  "goes_on x \<Longrightarrow> full_page x \<Longrightarrow> is_list_request x \<Longrightarrow> int (length (page_of x)) = page_size x"
  by (cases x) (auto simp: goes_on_def full_page_def is_list_request_def page_size_def
      split: upstream_response.splits sum.splits outbound.splits)

lemma paged_full_pages:
  "paged limit n tr \<Longrightarrow> \<forall>x\<in>set tr. full_page x \<Longrightarrow>
     int (length tr) \<le> (max 0 (limit - int n) + 49) div 50"
proof (induction tr arbitrary: n)
  case Nil
  then show ?case by simp
next
  case (Cons x xs)
  from Cons.prems have lt: "int n < limit" and ps: "page_size x = min 50 (limit - int n)"
    and lr: "is_list_request x" by auto
  show ?case
  proof (cases "goes_on x")
    case False
    then have "xs = []" using Cons.prems by auto
    then show ?thesis using lt by simp
  next
    case True
    then have len: "int (length (page_of x)) = min 50 (limit - int n)"
      using goes_on_full_page [of x] Cons.prems(2) lr ps by simp
    have rest: "paged limit (n + length (page_of x)) xs" using Cons.prems True by simp
    have "int (length xs) \<le> (max 0 (limit - int (n + length (page_of x))) + 49) div 50"
      using Cons.IH [OF rest] Cons.prems(2) by simp
    then show ?thesis using len lt by (simp add: min_def max_def split: if_splits) 
  qed
qed

subsection \<open>The sort and the slice\<close>

lemma mset_place: "mset (place cmp a xs) = add_mset a (mset xs)"
  by (induction xs) auto

lemma mset_array_sort: "mset (array_sort cmp xs) = mset xs"
  by (induction xs) (auto simp: mset_place)

lemma length_array_sort: "length (array_sort cmp xs) = length xs"
  using mset_array_sort [of cmp xs] by (metis size_mset)

lemma set_place: "set (place cmp a xs) = insert a (set xs)"
  using mset_place [of cmp a xs] by (metis set_mset_add_mset_insert set_mset_mset)

lemma compareFn_le: "compareFn a b \<le> 0 \<longleftrightarrow> epoch b \<le> epoch a"
  by (simp add: compareFn_def epoch_def)

lemma descending_place:
  "sorted_wrt (\<lambda>a b. epoch b \<le> epoch a) xs \<Longrightarrow>
   sorted_wrt (\<lambda>a b. epoch b \<le> epoch a) (place compareFn a xs)"
  by (induction xs) (auto simp: set_place compareFn_le)

lemma descending_array_sort: "sorted_wrt (\<lambda>a b. epoch b \<le> epoch a) (array_sort compareFn xs)"
  by (induction xs) (auto simp: descending_place)

lemma slice0_all: "int (length xs) \<le> n \<Longrightarrow> slice0 n xs = xs"
  by (simp add: slice0_def)

lemma length_slice0: "0 \<le> n \<Longrightarrow> int (length (slice0 n xs)) \<le> n"
  by (simp add: slice0_def)

subsection \<open>What getAccessToken and fetchLatestReviews leave in the log\<close>

lemma getAccessToken_log:
  "getAccessToken net env lg = (res, lg') \<Longrightarrow>
     (res = Inl MissingSecrets \<and> lg' = lg) \<or>
     (\<exists>x. lg' = lg @ [x] \<and> \<not> is_list_request x)"
  by (auto simp: getAccessToken_def Let_def is_list_request_def
      split: if_splits upstream_response.splits sum.splits)

lemma getAccessToken_token:
  "getAccessToken net env lg = (Inr tok, lg') \<Longrightarrow> \<exists>x. lg' = lg @ [x] \<and> \<not> is_list_request x"
  using getAccessToken_log [of net env lg "Inr tok" lg'] by auto

lemma getAccessToken_issues:
  "getAccessToken net env lg = (res, lg') \<Longrightarrow>
     (secrets_present env \<longrightarrow> lg' = lg @ [(token_request env, net lg (token_request env))]) \<and>
     (\<not> secrets_present env \<longrightarrow> lg' = lg \<and> res = Inl MissingSecrets)"
  by (auto simp: getAccessToken_def Let_def secrets_present_def token_request_def
      split: if_splits upstream_response.splits sum.splits)

lemma getAccessToken_not_MissingIds: "fst (getAccessToken net env lg) \<noteq> Inl MissingIds"
  by (auto simp: getAccessToken_def Let_def
      split: if_splits upstream_response.splits sum.splits)

lemma page_of_not_list: "\<not> is_list_request x \<Longrightarrow> page_of x = []"
  by (cases x) (auto simp: page_of_def is_list_request_def split: outbound.splits)

lemma code_condition:
  "(\<not> truthy accountId \<or> \<not> truthy locationId
      \<or> str_includes (property_key accountId) ''YOUR_''
      \<or> str_includes (property_key locationId) ''YOUR_'')
   \<longleftrightarrow> placeholder_or_missing accountId \<or> placeholder_or_missing locationId"
  by (auto simp: truthy_def placeholder_or_missing_def property_key_def split: option.splits)

lemma fetchLatestReviews_log:
  assumes "fetchLatestReviews getTime net env limit accountId locationId lg = (res, lg')"
  shows "(\<exists>e. res = Inl e \<and> (lg' = lg \<or> (\<exists>x. lg' = lg @ [x] \<and> \<not> is_list_request x))) \<or>
         (\<exists>x tr. lg' = lg @ x # tr \<and> \<not> is_list_request x \<and> paged limit 0 tr \<and>
            (\<forall>out. res = Inr out \<longrightarrow>
               out = array_sort compareFn
                       (map (normalizeReview getTime) (slice0 limit (concat (map page_of tr))))))"
proof (cases "getAccessToken net env lg")
  case (Pair r lg1)
  show ?thesis
  proof (cases r)
    case (Inl e)
    then have "res = Inl e" "lg' = lg1"
      using assms Pair by (simp_all add: fetchLatestReviews_def)
    then show ?thesis using getAccessToken_log [OF Pair] by auto
  next
    case (Inr tok)
    then obtain x where x: "lg1 = lg @ [x]" "\<not> is_list_request x"
      using getAccessToken_token Pair by blast
    show ?thesis
    proof (cases "\<not> truthy accountId \<or> \<not> truthy locationId
             \<or> str_includes (property_key accountId) ''YOUR_''
             \<or> str_includes (property_key locationId) ''YOUR_''")
      case True
      then have "res = Inl MissingIds" "lg' = lg1"
        using assms Pair Inr by (auto simp: fetchLatestReviews_def)
      then show ?thesis using x by auto
    next
      case False
      define L where "L = listPages net (property_key accountId) (property_key locationId)
                       tok limit None [] lg1"
      obtain tr where tr: "snd L = lg1 @ tr" "paged limit 0 tr"
        "\<forall>r. fst L = Inr r \<longrightarrow> r = concat (map page_of tr)"
        using listPages_paged [of net "property_key accountId" "property_key locationId"
            tok limit None "[]" lg1]
        by (auto simp: L_def)
      have "lg' = snd L" and "\<forall>out. res = Inr out \<longrightarrow> (\<exists>all. fst L = Inr all \<and>
               out = array_sort compareFn (map (normalizeReview getTime) (slice0 limit all)))"
        using assms Pair Inr False
        by (auto simp: fetchLatestReviews_def L_def split: prod.splits sum.splits)
      then have "lg' = lg @ x # tr \<and> \<not> is_list_request x \<and> paged limit 0 tr \<and>
            (\<forall>out. res = Inr out \<longrightarrow>
               out = array_sort compareFn
                       (map (normalizeReview getTime) (slice0 limit (concat (map page_of tr)))))"
        using tr x by auto
      then show ?thesis by blast
    qed
  qed
qed

section \<open>The claims\<close>

subsection \<open>C1: what fetchLatestReviews returns\<close>

text \<open>
  C1, as amended. The claim reads: the output is the normalisation of the full
  accumulated set, sorted descending by creation epoch and then truncated to the first N,
  so that with more than N accumulated records the output is the N newest. The source
  truncates first (\<open>all.slice(0, limit)\<close>), then maps, then sorts. What holds: a
  successful run returns the first N accumulated records, in upstream order, normalised
  and then sorted descending by creation epoch (a permutation of them, in descending
  order); this is the sort-then-truncate of the specification whenever no more than N
  records were accumulated. The accumulated records are read from the log of the run.
\<close>

theorem fetchLatestReviews_truncates_then_sorts:
  assumes "fetchLatestReviews getTime net env limit accountId locationId [] = (Inr out, lg)"
  shows "out = array_sort compareFn
                 (map (normalizeReview getTime) (slice0 limit (concat (map page_of lg)))) \<and>
         mset out = mset (map (normalizeReview getTime) (slice0 limit (concat (map page_of lg)))) \<and>
         sorted_wrt (\<lambda>a b. epoch b \<le> epoch a) out \<and>
         (int (accumulated lg) \<le> limit \<longrightarrow>
            out = spec_sorted_then_truncated getTime limit (concat (map page_of lg)))"
proof -
  from fetchLatestReviews_log [OF assms]
  obtain x tr where tr: "lg = x # tr" "\<not> is_list_request x"
    "out = array_sort compareFn
             (map (normalizeReview getTime) (slice0 limit (concat (map page_of tr))))"
    by auto
  have same: "concat (map page_of lg) = concat (map page_of tr)"
    using tr(1,2) by (simp add: page_of_not_list)
  have 1: "out = array_sort compareFn
                 (map (normalizeReview getTime) (slice0 limit (concat (map page_of lg))))"
    using tr(3) same by simp
  have 2: "mset out = mset (map (normalizeReview getTime) (slice0 limit (concat (map page_of lg))))"
    unfolding 1 by (rule mset_array_sort)
  have 3: "sorted_wrt (\<lambda>a b. epoch b \<le> epoch a) out"
    unfolding 1 by (rule descending_array_sort)
  have 4: "out = spec_sorted_then_truncated getTime limit (concat (map page_of lg))"
    if "int (accumulated lg) \<le> limit"
    using that unfolding 1 spec_sorted_then_truncated_def accumulated_def
    by (simp add: slice0_all length_array_sort)
  show ?thesis using 1 2 3 4 by blast
qed

text \<open>The scenario of the claim: limit 3, one page of five records. The run returns the
  first three records sorted (b, c, a); the three newest are b, d, e.\<close>

theorem newest_three_counterexample:
  "map review.reviewId (returned (run_five 3)) = [Some ''b'', Some ''c'', Some ''a''] \<and>
   concat (map page_of (snd (run_five 3))) = five_reviews \<and>
   map review.reviewId (spec_sorted_then_truncated utc_getTime 3 five_reviews)
     = [Some ''b'', Some ''d'', Some ''e''] \<and>
   returned (run_five 3) \<noteq> spec_sorted_then_truncated utc_getTime 3 five_reviews"
  by code_simp

text \<open>With limit 5 the five records are all returned, newest first.\<close>

theorem fetchLatestReviews_truncates_then_sorts_witness:
  "run_five 5 = (Inr (returned (run_five 5)), snd (run_five 5)) \<and>
   int (accumulated (snd (run_five 5))) \<le> 5 \<and>
   returned (run_five 5) =
     spec_sorted_then_truncated utc_getTime 5 (concat (map page_of (snd (run_five 5)))) \<and>
   map review.reviewId (returned (run_five 5)) =
     [Some ''b'', Some ''d'', Some ''e'', Some ''c'', Some ''a'']"
proof -
  have h: "run_five 5 = (Inr (returned (run_five 5)), snd (run_five 5))"
    by code_simp
  have a: "int (accumulated (snd (run_five 5))) \<le> 5" by code_simp
  have ids: "map review.reviewId (returned (run_five 5)) =
     [Some ''b'', Some ''d'', Some ''e'', Some ''c'', Some ''a'']" by code_simp
  from fetchLatestReviews_truncates_then_sorts [OF trans [OF run_five_def [symmetric] h]] a
  have "returned (run_five 5) =
     spec_sorted_then_truncated utc_getTime 5 (concat (map page_of (snd (run_five 5))))"
    by blast
  with h a ids show ?thesis by blast
qed

subsection \<open>C2: missing or placeholder identifiers\<close>

text \<open>
  C2, as amended. The claim reads: with a missing or placeholder identifier the pipeline
  fails with a configuration error before any network call, the OAuth token request
  included. \<open>fetchLatestReviews\<close> awaits \<open>getAccessToken\<close> on its first line and checks
  the identifiers after it. What holds: with a missing, empty or placeholder identifier
  the pipeline fails and issues no listing request; when the three secrets are present
  the token request is issued first, when one is absent nothing is issued and the failure
  is the missing-secrets error; the failure is the identifier error exactly when the
  token was obtained.
\<close>

theorem missing_identifiers_issue_no_listing:
  assumes "placeholder_or_missing accountId \<or> placeholder_or_missing locationId"
    and "fetchLatestReviews getTime net env limit accountId locationId lg = (res, lg')"
  shows "(\<exists>e. res = Inl e) \<and>
         filter is_list_request lg' = filter is_list_request lg \<and>
         (secrets_present env \<longrightarrow>
            lg' = lg @ [(token_request env, net lg (token_request env))]) \<and>
         (\<not> secrets_present env \<longrightarrow> lg' = lg \<and> res = Inl MissingSecrets) \<and>
         (res = Inl MissingIds \<longleftrightarrow> (\<exists>tok. fst (getAccessToken net env lg) = Inr tok))"
proof -
  obtain r lg1 where g: "getAccessToken net env lg = (r, lg1)" by (cases "getAccessToken net env lg")
  have bad: "\<not> truthy accountId \<or> \<not> truthy locationId
      \<or> str_includes (property_key accountId) ''YOUR_''
      \<or> str_includes (property_key locationId) ''YOUR_''"
    using assms(1) code_condition [of accountId locationId] by blast
  have res: "res = (case r of Inl e \<Rightarrow> Inl e | Inr tok \<Rightarrow> Inl MissingIds)" and lg': "lg' = lg1"
    using assms(2) g bad by (auto simp: fetchLatestReviews_def split: sum.splits)
  have 1: "\<exists>e. res = Inl e" using res by (cases r) auto
  have 2: "filter is_list_request lg' = filter is_list_request lg"
    using getAccessToken_log [OF g] lg' by auto
  have 3: "secrets_present env \<longrightarrow>
            lg' = lg @ [(token_request env, net lg (token_request env))]"
    and 4: "\<not> secrets_present env \<longrightarrow> lg' = lg \<and> res = Inl MissingSecrets"
    using getAccessToken_issues [OF g] lg' res by auto
  have 5: "res = Inl MissingIds \<longleftrightarrow> (\<exists>tok. fst (getAccessToken net env lg) = Inr tok)"
    using res g getAccessToken_not_MissingIds [of net env lg] by (cases r) auto
  show ?thesis using 1 2 3 4 5 by blast
qed

text \<open>With the three secrets set and no identifier, the token request is issued and
  answered before the identifier error is raised.\<close>

theorem token_request_before_identifier_check_counterexample:
  "placeholder_or_missing None \<and>
   run_no_ids = (Inl MissingIds,
     [(TokenRequest ''id'' ''secret'' ''refresh'',
       Response 200 [] (Inr (token_body (Some ''token''))))])"
  by code_simp

theorem missing_identifiers_issue_no_listing_witness:
  "(placeholder_or_missing None \<or> placeholder_or_missing None) \<and>
   secrets_present env_secrets \<and>
   fst run_no_ids = Inl MissingIds \<and>
   filter is_list_request (snd run_no_ids) = [] \<and>
   snd run_no_ids = [(token_request env_secrets,
       upstream_page five_reviews None [] (token_request env_secrets))]"
proof -
  have b: "placeholder_or_missing None \<or> placeholder_or_missing None" by code_simp
  have s: "secrets_present env_secrets" by code_simp
  have r: "fst run_no_ids = Inl MissingIds" by code_simp
  have h: "fetchLatestReviews utc_getTime (upstream_page five_reviews None) env_secrets 10
             None None [] = (fst run_no_ids, snd run_no_ids)"
    by (simp add: run_no_ids_def)
  note t = missing_identifiers_issue_no_listing [OF b h]
  from t have f: "filter is_list_request (snd run_no_ids) = []" by simp
  from t s have l: "snd run_no_ids = [(token_request env_secrets,
       upstream_page five_reviews None [] (token_request env_secrets))]" by simp
  from b s r f l show ?thesis by blast
qed

subsection \<open>C3: the not-found response\<close>

text \<open>
  C3, as amended. The claim reads: a request whose path is not \<open>/reviews\<close> or whose method
  is neither \<open>GET\<close> nor \<open>OPTIONS\<close> gets 404 "Not found", so that \<open>POST /reviews\<close> gets
  404. The handler tests the method only for \<open>OPTIONS\<close>, before the path. What holds: a
  request whose method is not \<open>OPTIONS\<close> and whose path is not \<open>/reviews\<close> gets the 404
  response with the plain-text body "Not found" and no outbound call; \<open>OPTIONS\<close> gets 204
  on every path; every other method on \<open>/reviews\<close> runs the pipeline and gets 200 or 500.
\<close>

theorem not_found_exactly:
  "(method request \<noteq> ''OPTIONS'' \<and> pathname request \<noteq> ''/reviews'' \<longrightarrow>
      fetch Number getTime net request env =
        (corsResponse (Text ''Not found'') env 404
           [(''Content-Type'', ''text/plain; charset=utf-8'')], [])) \<and>
   (method request = ''OPTIONS'' \<longrightarrow>
      fetch Number getTime net request env = (corsResponse NoBody env 204 [], [])) \<and>
   (method request \<noteq> ''OPTIONS'' \<and> pathname request = ''/reviews'' \<longrightarrow>
      status (fst (fetch Number getTime net request env)) = 200 \<or>
      status (fst (fetch Number getTime net request env)) = 500)"
proof (intro conjI impI)
  assume "method request \<noteq> ''OPTIONS'' \<and> pathname request \<noteq> ''/reviews''"
  then show "fetch Number getTime net request env =
        (corsResponse (Text ''Not found'') env 404
           [(''Content-Type'', ''text/plain; charset=utf-8'')], [])"
    by (simp add: fetch_def)
next
  assume "method request = ''OPTIONS''"
  then show "fetch Number getTime net request env = (corsResponse NoBody env 204 [], [])"
    by (rule fetch_OPTIONS)
next
  assume "method request \<noteq> ''OPTIONS'' \<and> pathname request = ''/reviews''"
  then show "status (fst (fetch Number getTime net request env)) = 200 \<or>
      status (fst (fetch Number getTime net request env)) = 500"
    using fetch_reviews_status [of request Number getTime net env] by auto
qed

text \<open>\<open>POST /reviews\<close> is served like a \<open>GET\<close>, and \<open>OPTIONS\<close> on another path is
  the preflight answer.\<close>

theorem post_reviews_and_options_counterexample:
  "status (fst (handle post_reviews env_defaults)) = 200 \<and>
   status (fst (handle options_other env_defaults)) = 204"
  by code_simp

theorem not_found_exactly_witness:
  "(method get_other \<noteq> ''OPTIONS'' \<and> pathname get_other \<noteq> ''/reviews'') \<and>
   handle get_other env_defaults =
     (corsResponse (Text ''Not found'') env_defaults 404
        [(''Content-Type'', ''text/plain; charset=utf-8'')], []) \<and>
   method options_other = ''OPTIONS'' \<and>
   handle options_other env_defaults = (corsResponse NoBody env_defaults 204 [], []) \<and>
   (method post_reviews \<noteq> ''OPTIONS'' \<and> pathname post_reviews = ''/reviews'') \<and>
   (status (fst (handle post_reviews env_defaults)) = 200 \<or>
    status (fst (handle post_reviews env_defaults)) = 500)"
proof -
  have a: "method get_other \<noteq> ''OPTIONS'' \<and> pathname get_other \<noteq> ''/reviews''"
    by code_simp
  have b: "method options_other = ''OPTIONS''" by code_simp
  have c: "method post_reviews \<noteq> ''OPTIONS'' \<and> pathname post_reviews = ''/reviews''"
    by code_simp
  from a not_found_exactly [of get_other Number_of_digits utc_getTime
      "upstream_page five_reviews None" env_defaults]
  have a': "handle get_other env_defaults =
     (corsResponse (Text ''Not found'') env_defaults 404
        [(''Content-Type'', ''text/plain; charset=utf-8'')], [])"
    unfolding handle_def by blast
  from b not_found_exactly [of options_other Number_of_digits utc_getTime
      "upstream_page five_reviews None" env_defaults]
  have b': "handle options_other env_defaults = (corsResponse NoBody env_defaults 204 [], [])"
    unfolding handle_def by blast
  from c not_found_exactly [of post_reviews Number_of_digits utc_getTime
      "upstream_page five_reviews None" env_defaults]
  have c': "status (fst (handle post_reviews env_defaults)) = 200 \<or>
    status (fst (handle post_reviews env_defaults)) = 500"
    unfolding handle_def by blast
  from a a' b b' c c' show ?thesis by blast
qed

subsection \<open>C4: the limit when the parameter is absent or not a number\<close>

text \<open>
  C4, as amended. The claim reads: when the \<open>limit\<close> parameter is absent or not finite
  after numeric conversion, the effective limit is 1. The handler replaces an absent
  parameter by the string \<open>10\<close> before \<open>clampInt\<close> sees it. What holds: when the parameter
  is absent the effective limit is 10 (as \<open>Number("10")\<close> is 10); when it is present and
  its numeric conversion is not finite, the effective limit is 1.
\<close>

theorem limit_absent_or_not_finite:
  "(searchParams_get request ''limit'' = None \<and> Number ''10'' = Finite 10
      \<longrightarrow> requested_limit Number request = 10) \<and>
   (searchParams_get request ''limit'' = Some v \<and> \<not> isFinite (Number v)
      \<longrightarrow> requested_limit Number request = 1)"
  by (auto simp: requested_limit_def clampInt_def isFinite_def trunc_def split: number.splits)

text \<open>A request with no \<open>limit\<close> parameter: the effective limit is 10, and the listing
  request asks for 10 records.\<close>

theorem absent_limit_counterexample:
  "searchParams_get get_reviews ''limit'' = None \<and>
   requested_limit Number_of_digits get_reviews = 10 \<and>
   map page_size (filter is_list_request (snd (handle get_reviews env_defaults))) = [10]"
  by code_simp

theorem limit_absent_or_not_finite_witness:
  "searchParams_get get_reviews ''limit'' = None \<and> Number_of_digits ''10'' = Finite 10 \<and>
   requested_limit Number_of_digits get_reviews = 10 \<and>
   searchParams_get get_reviews_limit_abc ''limit'' = Some ''abc'' \<and>
   \<not> isFinite (Number_of_digits ''abc'') \<and>
   requested_limit Number_of_digits get_reviews_limit_abc = 1"
proof -
  have a: "searchParams_get get_reviews ''limit'' = None \<and> Number_of_digits ''10'' = Finite 10"
    by code_simp
  have b: "searchParams_get get_reviews_limit_abc ''limit'' = Some ''abc'' \<and>
   \<not> isFinite (Number_of_digits ''abc'')"
    by code_simp
  from a limit_absent_or_not_finite [of get_reviews Number_of_digits]
  have a': "requested_limit Number_of_digits get_reviews = 10" by blast
  from b limit_absent_or_not_finite [of get_reviews_limit_abc Number_of_digits "''abc''"]
  have b': "requested_limit Number_of_digits get_reviews_limit_abc = 1" by blast
  from a a' b b' show ?thesis by blast
qed

subsection \<open>C5: the order of the returned list\<close>

text \<open>
  C5, as amended. The claim reads: an earlier review has a creation epoch greater than or
  equal to a later one's, and every review with creation epoch 0 appears after all reviews
  with nonzero creation epoch. The comparator orders by \<open>time || 0\<close>, descending, so a
  negative epoch (a creation time before 1970) sorts after 0. What holds, with the epoch
  of a review read as \<open>time || 0\<close> (0 when \<open>time\<close> is NaN): in a returned list an earlier
  review has an epoch greater than or equal to a later one's, and every review with epoch
  0 appears after all reviews with positive epoch.
\<close>

theorem returned_descending:
  assumes "fetchLatestReviews getTime net env limit accountId locationId lg = (Inr out, lg')"
  shows "(\<forall>i j. i < j \<and> j < length out \<longrightarrow> epoch (out ! j) \<le> epoch (out ! i)) \<and>
         (\<forall>i j. i < length out \<and> j < length out \<and> epoch (out ! i) = 0 \<and> 0 < epoch (out ! j)
                  \<longrightarrow> j < i)"
proof -
  from fetchLatestReviews_log [OF assms]
  obtain rs where "out = array_sort compareFn rs" by auto
  then have sorted: "sorted_wrt (\<lambda>a b. epoch b \<le> epoch a) out"
    by (simp add: descending_array_sort)
  have desc: "epoch (out ! j) \<le> epoch (out ! i)" if "i < j" "j < length out" for i j
    using sorted that by (simp add: sorted_wrt_iff_nth_less)
  have last: "j < i"
    if "i < length out" "j < length out" "epoch (out ! i) = 0" "0 < epoch (out ! j)" for i j
  proof (rule ccontr)
    assume "\<not> j < i"
    then have "i < j \<or> i = j" by auto
    then show False
    proof
      assume "i < j"
      from desc [OF this that(2)] that(3,4) show False by simp
    next
      assume "i = j"
      with that(3,4) show False by simp
    qed
  qed
  show ?thesis using desc last by blast
qed

text \<open>A record with no creation time has epoch 0, a record created before 1970 has a
  negative epoch: the epoch 0 record comes first.\<close>

theorem epoch_zero_before_negative_counterexample:
  "run_page [undated, before_1970] 10 = (Inr (returned (run_page [undated, before_1970] 10)),
      snd (run_page [undated, before_1970] 10)) \<and>
   map time (returned (run_page [undated, before_1970] 10)) = [Seconds 0, Seconds (- 1)]"
  by code_simp

theorem returned_descending_witness:
  "run_page [undated, dated] 10 =
     (Inr (returned (run_page [undated, dated] 10)), snd (run_page [undated, dated] 10)) \<and>
   (1::nat) < length (returned (run_page [undated, dated] 10)) \<and>
   epoch (returned (run_page [undated, dated] 10) ! 1) = 0 \<and>
   0 < epoch (returned (run_page [undated, dated] 10) ! 0) \<and>
   epoch (returned (run_page [undated, dated] 10) ! 1)
     \<le> epoch (returned (run_page [undated, dated] 10) ! 0) \<and> (0::nat) < 1"
proof -
  have h: "run_page [undated, dated] 10 =
     (Inr (returned (run_page [undated, dated] 10)), snd (run_page [undated, dated] 10))"
    by code_simp
  have n: "(1::nat) < length (returned (run_page [undated, dated] 10))" by code_simp
  have z: "epoch (returned (run_page [undated, dated] 10) ! 1) = 0" by code_simp
  have p: "0 < epoch (returned (run_page [undated, dated] 10) ! 0)" by code_simp
  note t = returned_descending [OF trans [OF run_page_def [symmetric] h]]
  from t n have d: "epoch (returned (run_page [undated, dated] 10) ! 1)
     \<le> epoch (returned (run_page [undated, dated] 10) ! 0)" by simp
  from t n z p have "(0::nat) < 1" by simp
  with h n z p d show ?thesis by blast
qed

subsection \<open>C6: starEnumToNumber on a label that names an inherited property\<close>

text \<open>
  C6. The claim reads: \<open>starEnumToNumber\<close> maps the five labels to 1 to 5 and every other
  input to 0. The five labels, the absent label and every label that is not the name of
  a property of \<open>Object.prototype\<close> behave so (\<open>starEnumToNumber_labels\<close>,
  \<open>starEnumToNumber_other\<close>). On the label \<open>constructor\<close> the lookup \<open>map[starRating]\<close>
  finds the inherited member, which is truthy, and \<open>|| 0\<close> does not apply: the function
  returns that member, not 0.
\<close>

theorem starEnumToNumber_inherited_member:
  "starEnumToNumber (Some ''constructor'') = Inherited ''constructor'' \<and>
   starEnumToNumber (Some ''constructor'') \<noteq> Num 0"
  by (simp add: starEnumToNumber_def map_get_cases property_key_def Object_prototype_def)

subsection \<open>C7: the pagination loop ends\<close>

text \<open>
  C7. The loop is the function \<open>listPages\<close>, which is total: a round that goes on has
  appended a record, so \<open>limit - all.length\<close> decreases. Started as the source starts it
  (no page token, nothing accumulated), it appends to the log a sequence of exchanges
  such that: there are at most N of them, and none when N is not positive; every round
  but the last got an ok response with a page that is not empty and a truthy
  continuation token, and left the accumulated count below N, so the loop stops at the
  first round that reaches N, lacks the token or brings an empty page (an empty page with
  a token ends the loop in that very round); a last round that could have gone on
  reached N; and when every ok response holds as many records as its request asked for,
  there are at most \<open>ceil(N/50)\<close> requests.
\<close>

theorem pagination_loop_ends:
  "\<exists>tr. snd (listPages net a l t limit None [] lg) = lg @ tr \<and>
        int (length tr) \<le> max 0 limit \<and>
        (tr = [] \<longleftrightarrow> limit \<le> 0) \<and>
        (\<forall>i. Suc i < length tr \<longrightarrow>
               goes_on (tr ! i) \<and> int (accumulated (take (Suc i) tr)) < limit) \<and>
        (tr \<noteq> [] \<and> goes_on (last tr) \<longrightarrow> limit \<le> int (accumulated tr)) \<and>
        ((\<forall>x\<in>set tr. full_page x) \<longrightarrow> int (length tr) \<le> (max 0 limit + 49) div 50)"
proof -
  obtain tr where tr: "snd (listPages net a l t limit None [] lg) = lg @ tr"
    "paged limit (length ([] :: raw_review list)) tr"
    using listPages_paged [of net a l t limit None "[]" lg] by blast
  then have p: "paged limit 0 tr" by simp
  have 1: "int (length tr) \<le> max 0 limit" using paged_length [OF p] by simp
  have 2: "tr = [] \<longleftrightarrow> limit \<le> 0" using paged_empty [OF p] by auto
  have 3: "\<forall>i. Suc i < length tr \<longrightarrow>
               goes_on (tr ! i) \<and> int (accumulated (take (Suc i) tr)) < limit"
    using paged_goes_on [OF p] by simp
  have 4: "tr \<noteq> [] \<and> goes_on (last tr) \<longrightarrow> limit \<le> int (accumulated tr)"
    using paged_last [OF p] by auto
  have 5: "(\<forall>x\<in>set tr. full_page x) \<longrightarrow> int (length tr) \<le> (max 0 limit + 49) div 50"
    using paged_full_pages [OF p] by simp
  show ?thesis using tr(1) 1 2 3 4 5 by blast
qed

theorem pagination_loop_ends_witness:
  "length (snd run_full) = 3 \<and>
   Suc 1 < length (snd run_full) \<and> goes_on (snd run_full ! 1) \<and>
   int (accumulated (take (Suc 1) (snd run_full))) < 120 \<and>
   (snd run_full \<noteq> [] \<and> goes_on (last (snd run_full))) \<and>
   120 \<le> int (accumulated (snd run_full)) \<and>
   list_all full_page (snd run_full) \<and>
   int (length (snd run_full)) \<le> (max 0 120 + 49) div 50 \<and>
   length (snd run_empty_page) = 1 \<and> \<not> goes_on (last (snd run_empty_page))"
proof -
  obtain tr where tr: "snd (listPages upstream_full ''111'' ''222'' ''token'' 120 None [] [])
      = [] @ tr"
    "\<forall>i. Suc i < length tr \<longrightarrow>
               goes_on (tr ! i) \<and> int (accumulated (take (Suc i) tr)) < 120"
    "tr \<noteq> [] \<and> goes_on (last tr) \<longrightarrow> 120 \<le> int (accumulated tr)"
    "(\<forall>x\<in>set tr. full_page x) \<longrightarrow> int (length tr) \<le> (max 0 120 + 49) div 50"
    using pagination_loop_ends [of upstream_full "''111''" "''222''" "''token''" 120 "[]"]
    by blast
  have eq: "tr = snd run_full" using tr(1) by (simp add: run_full_def)
  have n: "length (snd run_full) = 3" by code_simp
  have i: "Suc 1 < length (snd run_full)" by code_simp
  have l: "snd run_full \<noteq> [] \<and> goes_on (last (snd run_full))" by code_simp
  have f: "list_all full_page (snd run_full)" by code_simp
  from tr(2) i have g: "goes_on (snd run_full ! 1) \<and>
      int (accumulated (take (Suc 1) (snd run_full))) < 120"
    unfolding eq by blast
  from tr(3) l have a: "120 \<le> int (accumulated (snd run_full))" unfolding eq by blast
  from tr(4) f have c: "int (length (snd run_full)) \<le> (max 0 120 + 49) div 50"
    unfolding eq by (simp add: list_all_iff)
  have e: "length (snd run_empty_page) = 1 \<and> \<not> goes_on (last (snd run_empty_page))"
    by code_simp
  from n i g l a f c e show ?thesis by blast
qed

subsection \<open>C8: the returned count and the page sizes\<close>

text \<open>
  C8. For a limit from 1 to 50 (the handler passes no other, \<open>requested_limit_range\<close>)
  and any upstream, a successful run of the pipeline returns at most \<open>limit\<close> records, and every listing request in its log asks for
  \<open>min(50, limit - accumulated)\<close> records, hence for at most that many, where
  \<open>accumulated\<close> counts the records brought by the exchanges before it.
\<close>

theorem returned_count_and_page_sizes:
  assumes "1 \<le> limit" and "limit \<le> 50"
    and "fetchLatestReviews getTime net env limit accountId locationId [] = (res, lg)"
  shows "(\<forall>out. res = Inr out \<longrightarrow> int (length out) \<le> limit) \<and>
         (\<forall>i. i < length lg \<and> is_list_request (lg ! i) \<longrightarrow>
            page_size (lg ! i) = min 50 (limit - int (accumulated (take i lg))))"
proof -
  from fetchLatestReviews_log [OF assms(3)]
  consider (early) "\<exists>e. res = Inl e" "\<forall>x\<in>set lg. \<not> is_list_request x"
    | (loop) x tr where "lg = x # tr" "\<not> is_list_request x" "paged limit 0 tr"
        "\<forall>out. res = Inr out \<longrightarrow>
               out = array_sort compareFn
                       (map (normalizeReview getTime) (slice0 limit (concat (map page_of tr))))"
    by auto
  then show ?thesis
  proof cases
    case early
    then show ?thesis by auto
  next
    case loop
    have count: "int (length out) \<le> limit" if "res = Inr out" for out
    proof -
      have "length out = length (slice0 limit (concat (map page_of tr)))"
        using loop(4) that by (simp add: length_array_sort)
      then show ?thesis using length_slice0 [of limit "concat (map page_of tr)"] assms(1)
        by simp
    qed
    have size: "page_size (lg ! i) = min 50 (limit - int (accumulated (take i lg)))"
      if "i < length lg" "is_list_request (lg ! i)" for i
    proof (cases i)
      case 0
      then show ?thesis using that(2) loop(1,2) by simp
    next
      case (Suc k)
      then have k: "k < length tr" using that(1) loop(1) by simp
      have "accumulated (take i lg) = accumulated (take k tr)"
        using Suc loop(1,2) by (simp add: accumulated_def page_of_not_list)
      then show ?thesis using paged_page_size [OF loop(3) k] Suc loop(1) by simp
    qed
    show ?thesis using count size by blast
  qed
qed

theorem returned_count_and_page_sizes_witness:
  "(1::int) \<le> 3 \<and> (3::int) \<le> 50 \<and>
   run_pairs = (Inr (returned run_pairs), snd run_pairs) \<and>
   int (length (returned run_pairs)) \<le> 3 \<and>
   (2 < length (snd run_pairs) \<and> is_list_request (snd run_pairs ! 2)) \<and>
   page_size (snd run_pairs ! 2) = min 50 (3 - int (accumulated (take 2 (snd run_pairs)))) \<and>
   page_size (snd run_pairs ! 2) = 1 \<and> accumulated (snd run_pairs) = 4"
proof -
  have a: "(1::int) \<le> 3" and b: "(3::int) \<le> 50" by simp_all
  have h: "run_pairs = (Inr (returned run_pairs), snd run_pairs)" by code_simp
  have i: "2 < length (snd run_pairs) \<and> is_list_request (snd run_pairs ! 2)" by code_simp
  have v: "page_size (snd run_pairs ! 2) = 1 \<and> accumulated (snd run_pairs) = 4" by code_simp
  note t = returned_count_and_page_sizes [OF a b trans [OF run_pairs_def [symmetric] h]]
  from t have c: "int (length (returned run_pairs)) \<le> 3" by blast
  from t i have s: "page_size (snd run_pairs ! 2)
      = min 50 (3 - int (accumulated (take 2 (snd run_pairs))))" by blast
  from a b h c i s v show ?thesis by blast
qed

subsection \<open>C9: the failures of getAccessToken\<close>

text \<open>
  C9. When one of the three secrets is absent (or empty), \<open>getAccessToken\<close> fails with
  the missing-secrets error and the log is unchanged: no request went to the token
  endpoint. When the three are present and the token endpoint answers with an ok status
  and a body without an access token, it fails with the no-access-token error, which
  differs, as a value and by its message, from the missing-secrets error and from the
  error of a rejected refresh.
\<close>

theorem getAccessToken_failures:
  "(\<not> secrets_present env \<longrightarrow> getAccessToken net env lg = (Inl MissingSecrets, lg)) \<and>
   (secrets_present env \<and> net lg (token_request env) = Response st txt (Inr json) \<and> ok st \<and>
    \<not> truthy (access_token json) \<longrightarrow>
      fst (getAccessToken net env lg) = Inl NoAccessToken) \<and>
   NoAccessToken \<noteq> MissingSecrets \<and> NoAccessToken \<noteq> TokenRefreshFailed st' txt' \<and>
   message NoAccessToken \<noteq> message MissingSecrets \<and>
   message NoAccessToken \<noteq> message (TokenRefreshFailed st' txt')"
  by (auto simp: getAccessToken_def Let_def secrets_present_def token_request_def)

theorem getAccessToken_failures_witness:
  "\<not> secrets_present (env_secrets \<lparr> GOOGLE_OAUTH_REFRESH_TOKEN := None \<rparr>) \<and>
   getAccessToken upstream_no_token (env_secrets \<lparr> GOOGLE_OAUTH_REFRESH_TOKEN := None \<rparr>) []
     = (Inl MissingSecrets, []) \<and>
   (secrets_present env_secrets \<and>
    upstream_no_token [] (token_request env_secrets) = Response 200 [] (Inr (token_body None)) \<and>
    ok 200 \<and> \<not> truthy (access_token (token_body None))) \<and>
   fst (getAccessToken upstream_no_token env_secrets []) = Inl NoAccessToken"
proof -
  have a: "\<not> secrets_present (env_secrets \<lparr> GOOGLE_OAUTH_REFRESH_TOKEN := None \<rparr>)"
    by code_simp
  have b: "secrets_present env_secrets \<and>
    upstream_no_token [] (token_request env_secrets) = Response 200 [] (Inr (token_body None)) \<and>
    ok 200 \<and> \<not> truthy (access_token (token_body None))"
    by code_simp
  from a getAccessToken_failures [of "env_secrets \<lparr> GOOGLE_OAUTH_REFRESH_TOKEN := None \<rparr>"
      upstream_no_token "[]"]
  have a': "getAccessToken upstream_no_token
      (env_secrets \<lparr> GOOGLE_OAUTH_REFRESH_TOKEN := None \<rparr>) [] = (Inl MissingSecrets, [])"
    by blast
  from b getAccessToken_failures [of env_secrets upstream_no_token "[]" 200 "[]"
      "token_body None"]
  have b': "fst (getAccessToken upstream_no_token env_secrets []) = Inl NoAccessToken"
    by blast
  from a a' b b' show ?thesis by blast
qed

subsection \<open>C10: an empty identifier in the query falls back to the environment\<close>

text \<open>
  C10. When the \<open>accountId\<close> (or \<open>locationId\<close>) query parameter is present and empty, the
  identifier that the handler passes on is the default of the environment; the handler
  runs \<open>fetchLatestReviews\<close> with the identifiers so resolved; and \<open>fetchLatestReviews\<close>
  fails with the identifier error only when a resolved identifier is missing, empty or
  contains the placeholder marker.
\<close>

theorem empty_query_identifier_falls_back:
  "(searchParams_get request ''accountId'' = Some [] \<longrightarrow>
      requested_accountId request env = GBP_ACCOUNT_ID env) \<and>
   (searchParams_get request ''locationId'' = Some [] \<longrightarrow>
      requested_locationId request env = GBP_LOCATION_ID env) \<and>
   (method request \<noteq> ''OPTIONS'' \<and> pathname request = ''/reviews'' \<longrightarrow>
      snd (fetch Number getTime net request env) =
        snd (fetchLatestReviews getTime net env (requested_limit Number request)
               (requested_accountId request env) (requested_locationId request env) [])) \<and>
   (fst (fetchLatestReviews getTime net env limit (requested_accountId request env)
           (requested_locationId request env) lg) = Inl MissingIds \<longrightarrow>
      placeholder_or_missing (requested_accountId request env) \<or>
      placeholder_or_missing (requested_locationId request env))"
proof (intro conjI impI)
  assume "searchParams_get request ''accountId'' = Some []"
  then show "requested_accountId request env = GBP_ACCOUNT_ID env"
    by (simp add: requested_accountId_def orElse_def truthy_def)
next
  assume "searchParams_get request ''locationId'' = Some []"
  then show "requested_locationId request env = GBP_LOCATION_ID env"
    by (simp add: requested_locationId_def orElse_def truthy_def)
next
  assume "method request \<noteq> ''OPTIONS'' \<and> pathname request = ''/reviews''"
  then show "snd (fetch Number getTime net request env) =
        snd (fetchLatestReviews getTime net env (requested_limit Number request)
               (requested_accountId request env) (requested_locationId request env) [])"
    by (simp add: fetch_def Let_def split: prod.splits sum.splits)
next
  assume a: "fst (fetchLatestReviews getTime net env limit (requested_accountId request env)
           (requested_locationId request env) lg) = Inl MissingIds"
  show "placeholder_or_missing (requested_accountId request env) \<or>
      placeholder_or_missing (requested_locationId request env)"
  proof (rule ccontr)
    assume "\<not> ?thesis"
    then have good: "\<not> (\<not> truthy (requested_accountId request env)
        \<or> \<not> truthy (requested_locationId request env)
        \<or> str_includes (property_key (requested_accountId request env)) ''YOUR_''
        \<or> str_includes (property_key (requested_locationId request env)) ''YOUR_'')"
      using code_condition [of "requested_accountId request env"
          "requested_locationId request env"] by blast
    obtain r lg1 where g: "getAccessToken net env lg = (r, lg1)"
      by (cases "getAccessToken net env lg")
    show False
    proof (cases r)
      case (Inl e)
      then have "fst (fetchLatestReviews getTime net env limit (requested_accountId request env)
           (requested_locationId request env) lg) = Inl e"
        using g by (simp add: fetchLatestReviews_def)
      with a have "e = MissingIds" by simp
      with Inl g getAccessToken_not_MissingIds [of net env lg] show False by simp
    next
      case (Inr tok)
      have "fst (fetchLatestReviews getTime net env limit (requested_accountId request env)
           (requested_locationId request env) lg) \<noteq> Inl MissingIds"
        using g Inr good
          listPages_not_MissingIds [of net "property_key (requested_accountId request env)"
            "property_key (requested_locationId request env)" tok limit None "[]" lg1]
        by (auto simp: fetchLatestReviews_def split: prod.splits sum.splits)
      with a show False by simp
    qed
  qed
qed

theorem empty_query_identifier_falls_back_witness:
  "searchParams_get get_reviews_empty_ids ''accountId'' = Some [] \<and>
   requested_accountId get_reviews_empty_ids env_defaults = Some ''111'' \<and>
   searchParams_get get_reviews_empty_ids ''locationId'' = Some [] \<and>
   requested_locationId get_reviews_empty_ids env_defaults = Some ''222'' \<and>
   (method get_reviews_empty_ids \<noteq> ''OPTIONS'' \<and> pathname get_reviews_empty_ids = ''/reviews'') \<and>
   snd (handle get_reviews_empty_ids env_secrets) =
     snd (fetchLatestReviews utc_getTime (upstream_page five_reviews None) env_secrets
            (requested_limit Number_of_digits get_reviews_empty_ids)
            (requested_accountId get_reviews_empty_ids env_secrets)
            (requested_locationId get_reviews_empty_ids env_secrets) []) \<and>
   fst (fetchLatestReviews utc_getTime (upstream_page five_reviews None) env_secrets 10
          (requested_accountId get_reviews_empty_ids env_secrets)
          (requested_locationId get_reviews_empty_ids env_secrets) []) = Inl MissingIds \<and>
   (placeholder_or_missing (requested_accountId get_reviews_empty_ids env_secrets) \<or>
    placeholder_or_missing (requested_locationId get_reviews_empty_ids env_secrets))"
proof -
  have a: "searchParams_get get_reviews_empty_ids ''accountId'' = Some []" by code_simp
  have b: "searchParams_get get_reviews_empty_ids ''locationId'' = Some []" by code_simp
  have c: "method get_reviews_empty_ids \<noteq> ''OPTIONS'' \<and>
      pathname get_reviews_empty_ids = ''/reviews''" by code_simp
  have d: "fst (fetchLatestReviews utc_getTime (upstream_page five_reviews None) env_secrets 10
          (requested_accountId get_reviews_empty_ids env_secrets)
          (requested_locationId get_reviews_empty_ids env_secrets) []) = Inl MissingIds"
    by code_simp
  have e: "GBP_ACCOUNT_ID env_defaults = Some ''111'' \<and> GBP_LOCATION_ID env_defaults = Some ''222''"
    by code_simp
  from a b e empty_query_identifier_falls_back [of get_reviews_empty_ids env_defaults]
  have ab: "requested_accountId get_reviews_empty_ids env_defaults = Some ''111'' \<and>
    requested_locationId get_reviews_empty_ids env_defaults = Some ''222''"
    by simp
  note t = empty_query_identifier_falls_back [of get_reviews_empty_ids env_secrets
      Number_of_digits utc_getTime "upstream_page five_reviews None" 10 "[]"]
  from c t have c': "snd (handle get_reviews_empty_ids env_secrets) =
     snd (fetchLatestReviews utc_getTime (upstream_page five_reviews None) env_secrets
            (requested_limit Number_of_digits get_reviews_empty_ids)
            (requested_accountId get_reviews_empty_ids env_secrets)
            (requested_locationId get_reviews_empty_ids env_secrets) [])"
    unfolding handle_def by blast
  from d t have d': "placeholder_or_missing (requested_accountId get_reviews_empty_ids env_secrets) \<or>
    placeholder_or_missing (requested_locationId get_reviews_empty_ids env_secrets)"
    by blast
  from a b c d ab c' d' show ?thesis by blast
qed

end
